theory Spec2Isabelle
  imports Main "HOL-Library.Log_Nat"
begin

section \<open>Data model\<close>

text \<open>
  A task record as \<^verbatim>\<open>addTask\<close> in \<^verbatim>\<open>src/app/page.js\<close> builds it:
  \<^verbatim>\<open>{ id: nextId, title: newTask, description: '' }\<close>.
  The field \<^verbatim>\<open>id\<close> is called \<open>task_id\<close> here, since \<open>id\<close> is the identity function
  of HOL. An id is a Number of JavaScript with an integer value, written as the \<open>int\<close> of
  that value; the counter is one too. The Numbers with an integer value are the integers
  that \<open>Number_round\<close> below leaves as they are: every integer up to \<open>2 ^ 53\<close> in absolute
  value, and beyond that only those with 53 significant bits.
\<close>

record task =
  task_id :: int
  title :: string
  description :: string

text \<open>
  What \<^verbatim>\<open>JSON.parse\<close> can return for the text stored under the key \<^verbatim>\<open>'tasks'\<close>.
  An array is an array of task records; every JSON object is \<open>JObject\<close>, which is
  enough for the two things hydration asks of a value: whether it is truthy and whether it
  has a \<^verbatim>\<open>reduce\<close> method.
\<close>

datatype json = JNull | JBool bool | JNum int | JStr string | JObject | JArray "task list"

text \<open>
  The text of a stored item is represented by what \<^verbatim>\<open>JSON.parse\<close> makes of it:
  \<open>Invalid\<close> is a text that is not JSON, \<open>Valid v\<close> a JSON text of the value \<open>v\<close>.
  The slot itself is an \<open>item option\<close>: \<open>None\<close> when \<^verbatim>\<open>localStorage.getItem('tasks')\<close>
  returns \<^verbatim>\<open>null\<close>.
\<close>

datatype item = Invalid | Valid json

datatype js_error = SyntaxError | TypeError

text \<open>
  The three \<^verbatim>\<open>useState\<close> cells of \<^verbatim>\<open>Home\<close> and the storage slot they are
  written to.
\<close>

record state =
  tasks :: "task list"
  newTask :: string
  nextId :: int
  storage :: "item option"

section \<open>Library functions of JavaScript used by the page\<close>

text \<open>
  \<^verbatim>\<open>JSON.parse(localStorage.getItem('tasks'))\<close>: a missing item is \<^verbatim>\<open>null\<close>, which
  \<^verbatim>\<open>JSON.parse\<close> turns into the text \<^verbatim>\<open>"null"\<close> and parses to \<^verbatim>\<open>null\<close>; a text that is
  not JSON throws \<^verbatim>\<open>SyntaxError\<close>.
\<close>

definition JSON_parse :: "item option \<Rightarrow> js_error + json" where
  "JSON_parse x =
     (case x of
        None \<Rightarrow> Inr JNull
      | Some Invalid \<Rightarrow> Inl SyntaxError
      | Some (Valid v) \<Rightarrow> Inr v)"

text \<open>\<^verbatim>\<open>JSON.stringify\<close> of a list of task records, as the item it leaves in the slot.\<close>

definition JSON_stringify :: "task list \<Rightarrow> item" where
  "JSON_stringify l = Valid (JArray l)"

text \<open>
  The Number nearest to an integer (binary64: 53 significant bits, round to nearest, ties to
  the even significand). \<open>e\<close> is the number of low bits that do not fit, \<open>q\<close> the 53
  leading bits and \<open>r\<close> what is cut off. Integers too large for a finite Number, from
  \<open>2 ^ 1024\<close> on, are outside the model.
\<close>

definition Number_round :: "int \<Rightarrow> int" where
  "Number_round x =
     (if \<bar>x\<bar> \<le> 2 ^ 53 then x
      else (let a = nat \<bar>x\<bar>;
                e = floorlog 2 a - 53;
                q = a div 2 ^ e;
                r = a mod 2 ^ e;
                q' = (if 2 ^ e < 2 * r \<or> (2 * r = 2 ^ e \<and> odd q) then q + 1 else q)
            in sgn x * int (q' * 2 ^ e)))"

text \<open>The operator \<^verbatim>\<open>+\<close> on two Numbers: the exact sum, rounded.\<close>

definition Number_add :: "int \<Rightarrow> int \<Rightarrow> int" where
  "Number_add x y = Number_round (x + y)"

text \<open>Truthiness, as \<^verbatim>\<open>||\<close> tests it.\<close>

fun truthy :: "json \<Rightarrow> bool" where
  "truthy JNull = False"
| "truthy (JBool b) = b"
| "truthy (JNum n) = (n \<noteq> 0)"
| "truthy (JStr s) = (s \<noteq> [])"
| "truthy JObject = True"
| "truthy (JArray l) = True"

text \<open>
  \<^verbatim>\<open>Array.prototype.filter\<close> with a callback that receives the element and its
  index; \<open>i\<close> is the index of the head of the list.
\<close>

fun array_filter :: "('a \<Rightarrow> nat \<Rightarrow> bool) \<Rightarrow> nat \<Rightarrow> 'a list \<Rightarrow> 'a list" where
  "array_filter p i [] = []"
| "array_filter p i (x # xs) =
     (if p x i then x # array_filter p (Suc i) xs else array_filter p (Suc i) xs)"

section \<open>The page: \<^verbatim>\<open>src/app/page.js\<close>\<close>

text \<open>The state at the first render: \<^verbatim>\<open>useState([])\<close>, \<^verbatim>\<open>useState('')\<close>, \<^verbatim>\<open>useState(1)\<close>.\<close>

definition initial :: "item option \<Rightarrow> state" where
  "initial st = \<lparr>tasks = [], newTask = [], nextId = 1, storage = st\<rparr>"

text \<open>
  The effect of lines 56 to 61. \<^verbatim>\<open>JSON.parse\<close> may throw; a truthy value that is
  not an array has no \<^verbatim>\<open>reduce\<close>, so the call on line 59 throws \<^verbatim>\<open>TypeError\<close>. Nothing
  catches either.
\<close>

definition hydrate :: "state \<Rightarrow> js_error + state" where
  "hydrate s =
     (case JSON_parse (storage s) of
        Inl e \<Rightarrow> Inl e
      | Inr v \<Rightarrow>
          (let savedTasks = (if truthy v then v else JArray []) in
           case savedTasks of
             JArray l \<Rightarrow>
               (let maxId = foldl (\<lambda>mx task. max mx (task_id task)) 0 l
                in Inr (s\<lparr>tasks := l, nextId := Number_add maxId 1\<rparr>))
           | _ \<Rightarrow> Inl TypeError))"

text \<open>The \<^verbatim>\<open>onChange\<close> handler of the input: \<^verbatim>\<open>setNewTesk(e.target.value)\<close>.\<close>

definition setNewTesk :: "string \<Rightarrow> state \<Rightarrow> state" where
  "setNewTesk v s = s\<lparr>newTask := v\<rparr>"

text \<open>Lines 75 to 92.\<close>

definition addTask :: "state \<Rightarrow> state" where
  "addTask s =
     (let newTaskObj = \<lparr>task_id = nextId s, title = newTask s, description = []\<rparr>;
          updatedTasks = tasks s @ [newTaskObj]
      in s\<lparr>tasks := updatedTasks, newTask := [], nextId := Number_add (nextId s) 1,
            storage := Some (JSON_stringify updatedTasks)\<rparr>)"

text \<open>Lines 94 to 98. The argument is compared with the position \<open>i\<close> of each element.\<close>

definition handleDelete :: "int \<Rightarrow> state \<Rightarrow> state" where
  "handleDelete index s =
     (let newTasks = array_filter (\<lambda>_ i. int i \<noteq> index) 0 (tasks s)
      in s\<lparr>tasks := newTasks, storage := Some (JSON_stringify newTasks)\<rparr>)"

section \<open>The list: \<^verbatim>\<open>src/components/TaskList.js\<close>\<close>

text \<open>
  The Delete button of the row of \<open>task\<close>: \<^verbatim>\<open>onClick={() => onDelete(task.id)}\<close>, where
  the page passes \<^verbatim>\<open>handleDelete\<close> as \<^verbatim>\<open>onDelete\<close>.
\<close>

definition onClick_Delete :: "task \<Rightarrow> state \<Rightarrow> state" where
  "onClick_Delete task s = handleDelete (task_id task) s"

section \<open>Sequences of events\<close>

datatype action = Hydrate | Change string | Add | Delete int

fun step :: "action \<Rightarrow> state \<Rightarrow> js_error + state" where
  "step Hydrate s = hydrate s"
| "step (Change v) s = Inr (setNewTesk v s)"
| "step Add s = Inr (addTask s)"
| "step (Delete index) s = Inr (handleDelete index s)"

text \<open>An uncaught exception ends the run.\<close>

fun run :: "action list \<Rightarrow> state \<Rightarrow> js_error + state" where
  "run [] s = Inr s"
| "run (a # as) s = (case step a s of Inl e \<Rightarrow> Inl e | Inr s' \<Rightarrow> run as s')"

text \<open>The ids that the \<open>Add\<close> events of a run put into new records, in order.\<close>

fun assigned :: "action list \<Rightarrow> state \<Rightarrow> int list" where
  "assigned [] s = []"
| "assigned (a # as) s =
     (case a of Add \<Rightarrow> [nextId s] | _ \<Rightarrow> []) @
     (case step a s of Inl e \<Rightarrow> [] | Inr s' \<Rightarrow> assigned as s')"

text \<open>The spec's \<^verbatim>\<open>AddTask(title)\<close>: the title is typed into the input, then Add is clicked.\<close>

definition AddTask :: "string \<Rightarrow> state \<Rightarrow> state" where
  "AddTask t s = addTask (setNewTesk t s)"

text \<open>Every id in the list is below the counter.\<close>

definition ids_below :: "state \<Rightarrow> bool" where
  "ids_below s = list_all (\<lambda>t. task_id t < nextId s) (tasks s)"

text \<open>The records that a sequence of \<open>AddTask\<close> calls appends to the list of \<open>s\<close>.\<close>

definition created :: "string list \<Rightarrow> state \<Rightarrow> task list" where
  "created ts s = drop (length (tasks s)) (tasks (fold AddTask ts s))"

text \<open>
  What holds of the counter in every state the page reaches: it is at least 1, and as long
  as it is below \<open>2 ^ 53\<close> every id in the list is below it.
\<close>

definition counter_inv :: "state \<Rightarrow> bool" where
  "counter_inv s = (1 \<le> nextId s \<and> (nextId s < 2 ^ 53 \<longrightarrow> ids_below s))"

section \<open>States of the scenarios\<close>

definition task_A :: task where
  "task_A = \<lparr>task_id = 1, title = ''A'', description = []\<rparr>"

definition task_B :: task where
  "task_B = \<lparr>task_id = 2, title = ''B'', description = []\<rparr>"

definition task_C :: task where
  "task_C = \<lparr>task_id = 3, title = ''C'', description = []\<rparr>"

definition two_tasks :: state where
  "two_tasks = \<lparr>tasks = [task_A, task_B], newTask = [], nextId = 3,
                 storage = Some (JSON_stringify [task_A, task_B])\<rparr>"

definition three_tasks :: state where
  "three_tasks = \<lparr>tasks = [task_A, task_B, task_C], newTask = [], nextId = 4,
                   storage = Some (JSON_stringify [task_A, task_B, task_C])\<rparr>"

definition task_3 :: task where
  "task_3 = \<lparr>task_id = 3, title = ''x'', description = []\<rparr>"

definition task_7 :: task where
  "task_7 = \<lparr>task_id = 7, title = ''y'', description = []\<rparr>"

text \<open>Records with the ids \<open>2 ^ 53 - 1\<close>, \<open>2 ^ 53\<close> and 0, and the states hydrated from them.\<close>

definition task_safe :: task where
  "task_safe = \<lparr>task_id = 9007199254740991, title = ''s'', description = []\<rparr>"

definition task_big :: task where
  "task_big = \<lparr>task_id = 9007199254740992, title = ''b'', description = []\<rparr>"

definition task_zero :: task where
  "task_zero = \<lparr>task_id = 0, title = ''z'', description = []\<rparr>"

definition at_limit :: state where
  "at_limit = \<lparr>tasks = [task_safe], newTask = [], nextId = 9007199254740992,
                storage = Some (JSON_stringify [task_safe])\<rparr>"

definition at_big :: state where
  "at_big = \<lparr>tasks = [task_big, task_zero], newTask = [], nextId = 9007199254740992,
              storage = Some (JSON_stringify [task_big, task_zero])\<rparr>"

section \<open>Numbers\<close>

lemma Number_round_exact: "\<bar>x\<bar> \<le> 2 ^ 53 \<Longrightarrow> Number_round x = x"
  by (simp add: Number_round_def)

lemma Number_add_1_exact:
  assumes "- (2 ^ 53) \<le> x + 1" and "x < 2 ^ 53"
  shows "Number_add x 1 = x + 1"
proof -
  from assms have "\<bar>x + 1\<bar> \<le> 2 ^ 53" by simp
  then show ?thesis by (simp only: Number_add_def Number_round_exact)
qed

lemma Number_add_0_1: "Number_add 0 1 = 1"
  by (simp add: Number_add_def Number_round_def)

text \<open>Rounding never takes a Number from \<open>2 ^ 53\<close> on to one below \<open>2 ^ 53\<close>.\<close>

lemma Number_round_large:
  assumes "2 ^ 53 \<le> x"
  shows "2 ^ 53 \<le> Number_round x"
proof (cases "\<bar>x\<bar> \<le> 2 ^ 53")
  case True
  with assms show ?thesis by (simp only: Number_round_exact)
next
  case False
  define a where "a = nat \<bar>x\<bar>"
  define e where "e = floorlog 2 a - 53"
  define q where "q = a div 2 ^ e"
  define r where "r = a mod 2 ^ e"
  define q' where "q' = (if 2 ^ e < 2 * r \<or> (2 * r = 2 ^ e \<and> odd q) then q + 1 else q)"
  from assms have xpos: "0 < x" by simp
  from assms have a: "2 ^ 53 \<le> a"
    unfolding a_def by simp
  then have apos: "0 < a" by simp
  from a have fl: "Suc 53 \<le> floorlog 2 a"
    by (intro floorlog_ge_SucI) simp_all
  from floorlog_bounds [OF apos, of 2] have lo: "2 ^ (floorlog 2 a - 1) \<le> a" by simp
  from fl have e1: "floorlog 2 a - 1 = 52 + e" and e2: "1 \<le> e" by (simp_all add: e_def)
  from lo have "2 ^ 52 * 2 ^ e \<le> a" by (simp only: e1 power_add)
  then have "2 ^ 52 \<le> q"
    unfolding q_def by (simp only: less_eq_div_iff_mult_less_eq zero_less_power zero_less_numeral)
  moreover have "q \<le> q'" by (simp add: q'_def)
  ultimately have q': "2 ^ 52 \<le> q'" by (rule le_trans)
  from e2 have "(2::nat) ^ 1 \<le> 2 ^ e" by (intro power_increasing) simp_all
  with q' have "2 ^ 52 * 2 ^ 1 \<le> q' * 2 ^ e" by (intro mult_le_mono)
  then have "(2::nat) ^ 53 \<le> q' * 2 ^ e" by simp
  then have "int (2 ^ 53) \<le> int (q' * 2 ^ e)" by (simp only: of_nat_le_iff)
  then have le: "(2::int) ^ 53 \<le> int (q' * 2 ^ e)" by simp
  from False xpos have "Number_round x = int (q' * 2 ^ e)"
    by (simp add: Number_round_def Let_def a_def e_def q_def r_def q'_def)
  with le show ?thesis by (simp only:)
qed

lemma Number_add_1_below:
  assumes "0 \<le> x" and "Number_add x 1 < 2 ^ 53"
  shows "x + 1 < 2 ^ 53 \<and> Number_add x 1 = x + 1"
proof -
  have b: "x + 1 < 2 ^ 53"
  proof (rule ccontr)
    assume "\<not> x + 1 < 2 ^ 53"
    then have "2 ^ 53 \<le> x + 1" by simp
    then have "2 ^ 53 \<le> Number_round (x + 1)" by (rule Number_round_large)
    with assms(2) show False by (simp only: Number_add_def)
  qed
  with assms(1) have "Number_add x 1 = x + 1" by (intro Number_add_1_exact) simp_all
  with b show ?thesis by simp
qed

lemma Number_add_1_pos:
  assumes "0 \<le> x"
  shows "1 \<le> Number_add x 1"
proof (cases "x < 2 ^ 53")
  case True
  with assms have "Number_add x 1 = x + 1" by (intro Number_add_1_exact) simp_all
  with assms show ?thesis by simp
next
  case False
  then have "2 ^ 53 \<le> x + 1" by simp
  then have "2 ^ 53 \<le> Number_round (x + 1)" by (rule Number_round_large)
  then show ?thesis by (simp add: Number_add_def)
qed

text \<open>\<^verbatim>\<open>9007199254740992 + 1\<close> is \<^verbatim>\<open>9007199254740992\<close>: the sum lies halfway between two
  Numbers and goes to the one with the even significand.\<close>

lemma floorlog_above_2_53: "floorlog 2 (9007199254740993::nat) = 54"
proof -
  have "floorlog 2 (9007199254740993::nat) \<le> 54"
    by (intro floorlog_leI) simp_all
  moreover have "Suc 53 \<le> floorlog 2 (9007199254740993::nat)"
    by (intro floorlog_ge_SucI) simp_all
  ultimately show ?thesis by simp
qed

lemma Number_add_2_53: "Number_add 9007199254740992 1 = 9007199254740992"
  by (simp add: Number_add_def Number_round_def floorlog_above_2_53 Let_def)

lemma Number_add_below_2_53: "Number_add 9007199254740991 1 = 9007199254740992"
  by (simp add: Number_add_def Number_round_def)

text \<open>Beyond \<open>2 ^ 53\<close> only every second integer is a Number, beyond \<open>2 ^ 54\<close> every fourth.\<close>

lemma floorlog_numeral: "floorlog 2 (numeral n) = floorlog 2 (numeral n div 2) + 1"
  by (subst compute_floorlog) simp

lemma floorlog_one: "floorlog 2 (Suc 0) = 1"
  by (simp add: floorlog_def)

lemma Number_round_samples:
  "Number_round (2 ^ 53 + 3) = 2 ^ 53 + 4"
  "Number_round (2 ^ 54 + 2) = 2 ^ 54"
  "Number_round (2 ^ 54 + 6) = 2 ^ 54 + 8"
  "Number_round (- (2 ^ 53) - 3) = - (2 ^ 53) - 4"
  by (simp_all add: Number_round_def Let_def floorlog_numeral floorlog_one)

section \<open>Deleting\<close>

lemma array_filter_position:
  "array_filter (\<lambda>_ i. int i \<noteq> k) n xs =
     (if int n \<le> k \<and> k < int n + int (length xs)
      then take (nat k - n) xs @ drop (Suc (nat k - n)) xs else xs)"
proof (induction xs arbitrary: n)
  case Nil
  show ?case by simp
next
  case (Cons x xs)
  show ?case
  proof (cases "int n = k")
    case True
    then have "array_filter (\<lambda>_ i. int i \<noteq> k) (Suc n) xs = xs"
      by (simp add: Cons.IH)
    with True show ?thesis by auto
  next
    case False
    then have "nat k - n = Suc (nat k - Suc n)" if "int n \<le> k"
      using that by linarith
    with False show ?thesis
      by (auto simp: Cons.IH)
  qed
qed

lemma set_array_filter: "set (array_filter p i xs) \<subseteq> set xs"
  by (induction xs arbitrary: i) auto

lemma tasks_handleDelete:
  "tasks (handleDelete k s) =
     (if 0 \<le> k \<and> k < int (length (tasks s))
      then take (nat k) (tasks s) @ drop (Suc (nat k)) (tasks s) else tasks s)"
  using array_filter_position [of k 0 "tasks s"] by (simp add: handleDelete_def Let_def)

text \<open>
  C1. The spec's \<^verbatim>\<open>DeleteTask(id)\<close> removes the record whose id is the argument, and on
  the list of A (id 1) and B (id 2), \<^verbatim>\<open>DeleteTask(1)\<close> leaves B. The code compares the
  argument with positions: the Delete button of A calls \<^verbatim>\<open>handleDelete(1)\<close>, which removes
  the record at position 1, that is B, and leaves A.
\<close>

theorem delete_scenario_code:
  "tasks (onClick_Delete task_A two_tasks) = [task_A] \<and>
   tasks (onClick_Delete task_A two_tasks) \<noteq> [task_B]"
  by (simp add: onClick_Delete_def handleDelete_def Let_def two_tasks_def task_A_def task_B_def)

text \<open>
  C2. Called with a position \<open>k\<close> of the list, \<^verbatim>\<open>handleDelete\<close> removes the element at
  position \<open>k\<close>, whatever its id; called with any other integer it leaves the list as it
  is. The Delete button of a row calls it with the id of the row's task.
\<close>

theorem handleDelete_by_position:
  "(0 \<le> k \<and> k < int (length (tasks s)) \<longrightarrow>
      tasks (handleDelete k s) = take (nat k) (tasks s) @ drop (Suc (nat k)) (tasks s) \<and>
      length (tasks (handleDelete k s)) + 1 = length (tasks s)) \<and>
   (\<not> (0 \<le> k \<and> k < int (length (tasks s))) \<longrightarrow> tasks (handleDelete k s) = tasks s) \<and>
   onClick_Delete t s = handleDelete (task_id t) s"
  by (auto simp: tasks_handleDelete onClick_Delete_def)

theorem handleDelete_by_position_witness:
  "(0 \<le> (1::int) \<and> 1 < int (length (tasks two_tasks))) \<and>
   tasks (handleDelete 1 two_tasks) = [task_A] \<and>
   \<not> (0 \<le> (2::int) \<and> 2 < int (length (tasks two_tasks))) \<and>
   tasks (handleDelete 2 two_tasks) = [task_A, task_B] \<and>
   tasks (onClick_Delete task_A two_tasks) = [task_A]"
  using handleDelete_by_position [of 1 two_tasks task_A]
    handleDelete_by_position [of 2 two_tasks task_B]
  by (simp add: two_tasks_def task_A_def task_B_def)

text \<open>
  C3. The spec's \<^verbatim>\<open>DeleteTask(id)\<close> is idempotent. In the code, the Delete button of A
  (id 1) in the list of A, B and C first removes B, the record at position 1; clicked again
  it removes C, which has moved to position 1.
\<close>

theorem delete_twice_code:
  "tasks (onClick_Delete task_A three_tasks) = [task_A, task_C] \<and>
   tasks (onClick_Delete task_A (onClick_Delete task_A three_tasks)) = [task_A]"
  by (simp add: onClick_Delete_def handleDelete_def Let_def three_tasks_def task_A_def)

text \<open>
  C9. \<^verbatim>\<open>handleDelete\<close> always writes the list it computed to the storage slot, also when
  that list is the list it started from.
\<close>

theorem handleDelete_persists:
  "storage (handleDelete index s) = Some (JSON_stringify (tasks (handleDelete index s))) \<and>
   (tasks (handleDelete index s) = tasks s \<longrightarrow>
      storage (handleDelete index s) = Some (JSON_stringify (tasks s)))"
  by (simp add: handleDelete_def Let_def)

theorem handleDelete_persists_witness:
  "tasks (handleDelete 5 (two_tasks\<lparr>storage := None\<rparr>)) = tasks (two_tasks\<lparr>storage := None\<rparr>) \<and>
   storage (handleDelete 5 (two_tasks\<lparr>storage := None\<rparr>)) =
     Some (JSON_stringify [task_A, task_B])"
  using handleDelete_persists [of 5 "two_tasks\<lparr>storage := None\<rparr>"]
  by (simp add: tasks_handleDelete two_tasks_def)

section \<open>Hydration\<close>

lemma foldl_max_task_id:
  "foldl (\<lambda>mx task. max mx (task_id task)) m l = Max (insert m (task_id ` set l))"
proof (induction l arbitrary: m)
  case Nil
  show ?case by simp
next
  case (Cons x xs)
  have "Max (insert (max m (task_id x)) (task_id ` set xs)) =
        Max (insert m (insert (task_id x) (task_id ` set xs)))"
    by (cases "set xs = {}") (simp_all add: max.assoc)
  then show ?case by (simp add: Cons.IH)
qed

lemma hydrate_array:
  "storage s = Some (Valid (JArray l)) \<Longrightarrow>
   hydrate s =
     Inr (s\<lparr>tasks := l, nextId := Number_add (Max (insert 0 (task_id ` set l))) 1\<rparr>)"
  by (simp add: hydrate_def JSON_parse_def foldl_max_task_id)

lemma hydrate_Inr:
  "hydrate s = Inr s' \<Longrightarrow>
   nextId s' = Number_add (Max (insert 0 (task_id ` set (tasks s')))) 1"
  by (auto simp: hydrate_def JSON_parse_def foldl_max_task_id Let_def
      split: option.splits item.splits json.splits if_splits)

lemma Max_ids_bounds:
  "0 \<le> Max (insert 0 (task_id ` set l)) \<and>
   (\<forall>t\<in>set l. task_id t \<le> Max (insert 0 (task_id ` set l)))"
  by (simp add: Max_ge_iff)

lemma Max_ids_less:
  "\<forall>t\<in>set l. task_id t < 2 ^ 53 \<Longrightarrow> Max (insert 0 (task_id ` set l)) < 2 ^ 53"
  by (subst Max_less_iff) auto

text \<open>
  C4, as the spec states it: hydration never surfaces an error, and a stored value that
  cannot be parsed gives the empty list and the counter 1. On a stored text that is not JSON
  \<^verbatim>\<open>JSON.parse\<close> throws, and nothing in the effect catches the exception.
\<close>

theorem hydrate_invalid_code:
  "hydrate (initial (Some Invalid)) = Inl SyntaxError \<and>
   hydrate (initial (Some Invalid)) \<noteq> Inr ((initial (Some Invalid))\<lparr>tasks := [], nextId := 1\<rparr>)"
  by (simp add: hydrate_def JSON_parse_def initial_def)

text \<open>
  C4, amended. Hydration installs the empty list and the counter 1, without an error, when
  the item is missing or is the JSON text of a falsy value (\<^verbatim>\<open>null\<close>, \<^verbatim>\<open>false\<close>, \<^verbatim>\<open>0\<close>,
  the empty string). A text that is not JSON ends it with \<^verbatim>\<open>SyntaxError\<close>, and a truthy
  value that is not an array with \<^verbatim>\<open>TypeError\<close>.
\<close>

theorem hydrate_missing_or_falsy:
  "(storage s = None \<or> (\<exists>v. storage s = Some (Valid v) \<and> \<not> truthy v) \<longrightarrow>
      hydrate s = Inr (s\<lparr>tasks := [], nextId := 1\<rparr>)) \<and>
   (storage s = Some Invalid \<longrightarrow> hydrate s = Inl SyntaxError) \<and>
   (storage s = Some (Valid v) \<and> truthy v \<and> (\<forall>l. v \<noteq> JArray l) \<longrightarrow>
      hydrate s = Inl TypeError)"
  by (cases v) (auto simp: hydrate_def JSON_parse_def Number_add_0_1)

theorem hydrate_missing_or_falsy_witness:
  "storage (initial None) = None \<and>
   hydrate (initial None) = Inr (initial None) \<and>
   (\<exists>v. storage (initial (Some (Valid (JNum 0)))) = Some (Valid v) \<and> \<not> truthy v) \<and>
   hydrate (initial (Some (Valid (JNum 0)))) = Inr (initial (Some (Valid (JNum 0)))) \<and>
   storage (initial (Some Invalid)) = Some Invalid \<and>
   hydrate (initial (Some Invalid)) = Inl SyntaxError \<and>
   storage (initial (Some (Valid JObject))) = Some (Valid JObject) \<and> truthy JObject \<and>
   (\<forall>l. JObject \<noteq> JArray l) \<and>
   hydrate (initial (Some (Valid JObject))) = Inl TypeError"
  using hydrate_missing_or_falsy [of "initial None" JNull]
    hydrate_missing_or_falsy [of "initial (Some (Valid (JNum 0)))" JNull]
    hydrate_missing_or_falsy [of "initial (Some Invalid)" JNull]
    hydrate_missing_or_falsy [of "initial (Some (Valid JObject))" JObject]
  by (simp add: initial_def)

text \<open>
  C8, as the spec states it: for every parsed list the counter becomes one more than the
  greatest of 0 and the ids. For the list of the one record of id \<open>2 ^ 53\<close>, which is
  9007199254740992, \<^verbatim>\<open>maxId + 1\<close> is again 9007199254740992, and that is the counter.
\<close>

theorem hydrate_counter_rounds:
  "hydrate (initial (Some (JSON_stringify [task_big]))) =
     Inr ((initial (Some (JSON_stringify [task_big])))
            \<lparr>tasks := [task_big], nextId := 9007199254740992\<rparr>) \<and>
   hydrate (initial (Some (JSON_stringify [task_big]))) \<noteq>
     Inr ((initial (Some (JSON_stringify [task_big])))
            \<lparr>tasks := [task_big], nextId := 1 + 9007199254740992\<rparr>)"
  by (simp add: hydrate_def JSON_parse_def JSON_stringify_def initial_def task_big_def
      Number_add_2_53)

text \<open>
  C8, amended. When the stored text parses to a list of task records, hydration installs
  that list and sets the counter to the Number \<^verbatim>\<open>maxId + 1\<close>, where \<^verbatim>\<open>maxId\<close> is the
  greatest of 0 and the ids of the list. When every id is below \<open>2 ^ 53\<close> that is
  one more than \<^verbatim>\<open>maxId\<close>; the list of the ids 3 and 7 gives the counter 8.
\<close>

theorem hydrate_parsed_list:
  "(storage s = Some (Valid (JArray l)) \<longrightarrow>
      hydrate s =
        Inr (s\<lparr>tasks := l, nextId := Number_add (Max (insert 0 (task_id ` set l))) 1\<rparr>)) \<and>
   (storage s = Some (Valid (JArray l)) \<and> (\<forall>t\<in>set l. task_id t < 2 ^ 53) \<longrightarrow>
      hydrate s = Inr (s\<lparr>tasks := l, nextId := 1 + Max (insert 0 (task_id ` set l))\<rparr>)) \<and>
   hydrate (initial (Some (JSON_stringify [task_3, task_7]))) =
      Inr \<lparr>tasks = [task_3, task_7], newTask = [], nextId = 8,
           storage = Some (JSON_stringify [task_3, task_7])\<rparr>"
proof -
  have exact: "Number_add (Max (insert 0 (task_id ` set l))) 1 =
      1 + Max (insert 0 (task_id ` set l))"
    if "\<forall>t\<in>set l. task_id t < 2 ^ 53"
  proof -
    from Max_ids_less [OF that] have "Max (insert 0 (task_id ` set l)) < 2 ^ 53" .
    moreover from Max_ids_bounds [of l] have "0 \<le> Max (insert 0 (task_id ` set l))" by simp
    ultimately show ?thesis by (subst Number_add_1_exact) simp_all
  qed
  have "Number_add 7 1 = 8" by (simp add: Number_add_def Number_round_def)
  then have "hydrate (initial (Some (JSON_stringify [task_3, task_7]))) =
      Inr \<lparr>tasks = [task_3, task_7], newTask = [], nextId = 8,
           storage = Some (JSON_stringify [task_3, task_7])\<rparr>"
    by (simp add: hydrate_def JSON_parse_def initial_def JSON_stringify_def task_3_def
        task_7_def)
  with exact show ?thesis by (simp add: hydrate_array)
qed

theorem hydrate_parsed_list_witness:
  "storage (initial (Some (Valid (JArray [task_3, task_7])))) = Some (Valid (JArray [task_3, task_7])) \<and>
   task_id task_3 < 2 ^ 53 \<and> task_id task_7 < 2 ^ 53 \<and>
   hydrate (initial (Some (Valid (JArray [task_3, task_7])))) =
     Inr ((initial (Some (Valid (JArray [task_3, task_7]))))\<lparr>tasks := [task_3, task_7], nextId := 8\<rparr>)"
  using hydrate_parsed_list [of "initial (Some (Valid (JArray [task_3, task_7])))" "[task_3, task_7]"]
  by (simp add: initial_def task_3_def task_7_def Number_add_def Number_round_def)

section \<open>Adding\<close>

text \<open>
  C7, as the spec states it: in every state \<^verbatim>\<open>AddTask\<close> sets the counter \<open>c\<close> to
  \<open>c + 1\<close>. In the state hydrated from the list of the one record of id \<open>2 ^ 53 - 1\<close> the
  counter is 9007199254740992, and \<^verbatim>\<open>nextId + 1\<close> is again 9007199254740992.
\<close>

theorem AddTask_counter_stuck:
  "run [Hydrate] (initial (Some (JSON_stringify [task_safe]))) = Inr at_limit \<and>
   nextId at_limit = 9007199254740992 \<and>
   nextId (AddTask ''x'' at_limit) = 9007199254740992 \<and>
   nextId (AddTask ''x'' at_limit) \<noteq> nextId at_limit + 1"
  by (simp add: hydrate_def JSON_parse_def JSON_stringify_def initial_def at_limit_def
      task_safe_def AddTask_def addTask_def setNewTesk_def Let_def Number_add_2_53
      Number_add_below_2_53)

text \<open>
  C7, amended. \<^verbatim>\<open>AddTask(t)\<close> appends the record of the current counter \<open>c\<close>, the title
  \<open>t\<close> and the empty description to the list, sets the counter to the Number
  \<^verbatim>\<open>c + 1\<close>, writes the new list to the storage slot and empties the input. When \<open>c\<close> is
  below \<open>2 ^ 53\<close> in absolute value, the new counter is one more than \<open>c\<close>. From the empty
  list, \<^verbatim>\<open>AddTask("Buy milk")\<close> gives the list of that one record, with id 1, and the
  counter 2.
\<close>

theorem AddTask_effect:
  "AddTask t s =
     s\<lparr>tasks := tasks s @ [\<lparr>task_id = nextId s, title = t, description = []\<rparr>],
       newTask := [],
       nextId := Number_add (nextId s) 1,
       storage := Some (JSON_stringify
         (tasks s @ [\<lparr>task_id = nextId s, title = t, description = []\<rparr>]))\<rparr> \<and>
   (\<bar>nextId s\<bar> < 2 ^ 53 \<longrightarrow> nextId (AddTask t s) = nextId s + 1) \<and>
   tasks (AddTask ''Buy milk'' (initial st)) =
     [\<lparr>task_id = 1, title = ''Buy milk'', description = []\<rparr>] \<and>
   nextId (AddTask ''Buy milk'' (initial st)) = 2 \<and>
   run [Hydrate, Change ''Buy milk'', Add] (initial None) =
     Inr \<lparr>tasks = [\<lparr>task_id = 1, title = ''Buy milk'', description = []\<rparr>],
          newTask = [], nextId = 2,
          storage = Some (JSON_stringify
            [\<lparr>task_id = 1, title = ''Buy milk'', description = []\<rparr>])\<rparr>"
proof -
  have one: "Number_add 1 1 = 2" by (simp add: Number_add_def Number_round_def)
  have exact: "Number_add (nextId s) 1 = nextId s + 1" if "\<bar>nextId s\<bar> < 2 ^ 53"
    using that by (intro Number_add_1_exact) simp_all
  show ?thesis
    by (simp add: AddTask_def addTask_def setNewTesk_def Let_def initial_def hydrate_def
        JSON_parse_def Number_add_0_1 one exact)
qed

theorem AddTask_effect_witness:
  "\<bar>nextId (initial None)\<bar> < 2 ^ 53 \<and> nextId (AddTask ''Buy milk'' (initial None)) = 2"
  using AddTask_effect [of "''Buy milk''" "initial None" None]
  by (simp add: initial_def Number_add_def Number_round_def)

section \<open>The counter and the ids\<close>

lemma counter_inv_initial: "counter_inv (initial st)"
  by (simp add: counter_inv_def ids_below_def initial_def)

lemma counter_inv_hydrate:
  assumes "hydrate s = Inr s'"
  shows "counter_inv s'"
proof -
  let ?M = "Max (insert 0 (task_id ` set (tasks s')))"
  from assms have c: "nextId s' = Number_add ?M 1" by (rule hydrate_Inr)
  from Max_ids_bounds [of "tasks s'"]
  have M0: "0 \<le> ?M" and Mge: "\<forall>t\<in>set (tasks s'). task_id t \<le> ?M" by simp_all
  from Number_add_1_pos [OF M0] have "1 \<le> nextId s'" by (simp only: c)
  moreover have "ids_below s'" if "nextId s' < 2 ^ 53"
  proof -
    from that have lt: "Number_add ?M 1 < 2 ^ 53" by (simp only: c)
    from Number_add_1_below [OF M0 lt] have "Number_add ?M 1 = ?M + 1" by (rule conjunct2)
    with c have "nextId s' = ?M + 1" by (simp only:)
    with Mge have "\<forall>t\<in>set (tasks s'). task_id t < nextId s'" by fastforce
    then show ?thesis by (simp add: ids_below_def list_all_iff)
  qed
  ultimately show ?thesis by (simp add: counter_inv_def)
qed

lemma counter_inv_setNewTesk: "counter_inv (setNewTesk v s) = counter_inv s"
  by (simp add: counter_inv_def ids_below_def setNewTesk_def)

lemma nextId_addTask: "nextId (addTask s) = Number_add (nextId s) 1"
  by (simp add: addTask_def Let_def)

lemma tasks_addTask:
  "tasks (addTask s) = tasks s @ [\<lparr>task_id = nextId s, title = newTask s, description = []\<rparr>]"
  by (simp add: addTask_def Let_def)

lemma counter_inv_addTask:
  assumes "counter_inv s"
  shows "counter_inv (addTask s)"
proof -
  from assms have c0: "0 \<le> nextId s" by (simp add: counter_inv_def)
  from Number_add_1_pos [OF c0] have "1 \<le> nextId (addTask s)"
    by (simp only: nextId_addTask)
  moreover have "ids_below (addTask s)" if "nextId (addTask s) < 2 ^ 53"
  proof -
    from that have lt: "Number_add (nextId s) 1 < 2 ^ 53" by (simp only: nextId_addTask)
    from Number_add_1_below [OF c0 lt]
    have b: "nextId s + 1 < 2 ^ 53" and e: "Number_add (nextId s) 1 = nextId s + 1"
      by (rule conjunct1, rule conjunct2)
    from b have "nextId s < 2 ^ 53" by simp
    with assms have "ids_below s" by (simp add: counter_inv_def)
    then show ?thesis
      by (auto simp: ids_below_def list_all_iff nextId_addTask tasks_addTask e)
  qed
  ultimately show ?thesis by (simp add: counter_inv_def)
qed

lemma nextId_handleDelete: "nextId (handleDelete k s) = nextId s"
  by (simp add: handleDelete_def Let_def)

lemma counter_inv_handleDelete: "counter_inv s \<Longrightarrow> counter_inv (handleDelete k s)"
  using set_array_filter [of "\<lambda>_ i. int i \<noteq> k" 0 "tasks s"]
  by (auto simp: counter_inv_def ids_below_def handleDelete_def Let_def list_all_iff)

lemma counter_inv_step: "counter_inv s \<Longrightarrow> step a s = Inr s' \<Longrightarrow> counter_inv s'"
  by (cases a)
    (auto simp: counter_inv_hydrate counter_inv_setNewTesk counter_inv_addTask
      counter_inv_handleDelete)

lemma counter_inv_run: "counter_inv s \<Longrightarrow> run acts s = Inr s' \<Longrightarrow> counter_inv s'"
proof (induction acts arbitrary: s)
  case Nil
  then show ?case by simp
next
  case (Cons a acts)
  then show ?case
    by (auto split: sum.splits dest: counter_inv_step)
qed

lemma counter_inv_reachable: "run pre (initial st) = Inr s \<Longrightarrow> counter_inv s"
  using counter_inv_run [OF counter_inv_initial] .

lemma assigned_increasing:
  "Hydrate \<notin> set acts \<Longrightarrow> 1 \<le> nextId s \<Longrightarrow>
   nextId s + int (count_list acts Add) \<le> 2 ^ 53 \<Longrightarrow>
   sorted_wrt (<) (assigned acts s) \<and>
   (\<forall>i\<in>set (assigned acts s). nextId s \<le> i \<and> i < 2 ^ 53)"
proof (induction acts arbitrary: s)
  case Nil
  show ?case by simp
next
  case (Cons a acts)
  then have free: "Hydrate \<notin> set acts" and a: "a \<noteq> Hydrate" by auto
  note pos = \<open>1 \<le> nextId s\<close>
  note bound = \<open>nextId s + int (count_list (a # acts) Add) \<le> 2 ^ 53\<close>
  show ?case
  proof (cases a)
    case Hydrate
    with a show ?thesis by simp
  next
    case (Change v)
    with bound have "nextId (setNewTesk v s) + int (count_list acts Add) \<le> 2 ^ 53"
      by (simp add: setNewTesk_def)
    moreover from pos have "1 \<le> nextId (setNewTesk v s)" by (simp add: setNewTesk_def)
    ultimately show ?thesis
      using Cons.IH [OF free, of "setNewTesk v s"] Change by (simp add: setNewTesk_def)
  next
    case Add
    with bound have b: "nextId s + 1 + int (count_list acts Add) \<le> 2 ^ 53" by simp
    then have lt: "nextId s < 2 ^ 53" by simp
    with pos have e: "nextId (addTask s) = nextId s + 1"
      by (simp only: nextId_addTask) (intro Number_add_1_exact, simp_all)
    from b pos Cons.IH [OF free, of "addTask s"]
    have "sorted_wrt (<) (assigned acts (addTask s))"
      and "\<forall>i\<in>set (assigned acts (addTask s)). nextId s + 1 \<le> i \<and> i < 2 ^ 53"
      by (simp_all add: e)
    with Add lt show ?thesis by fastforce
  next
    case (Delete k)
    with bound have "nextId (handleDelete k s) + int (count_list acts Add) \<le> 2 ^ 53"
      by (simp add: nextId_handleDelete)
    moreover from pos have "1 \<le> nextId (handleDelete k s)" by (simp add: nextId_handleDelete)
    ultimately show ?thesis
      using Cons.IH [OF free, of "handleDelete k s"] Delete by (simp add: nextId_handleDelete)
  qed
qed

lemma assigned_above_list:
  assumes "counter_inv s" and "Hydrate \<notin> set acts"
    and "nextId s + int (count_list acts Add) \<le> 2 ^ 53"
    and "i \<in> set (assigned acts s)" and "t \<in> set (tasks s)"
  shows "task_id t < i"
proof -
  from assms(1) have pos: "1 \<le> nextId s" by (simp add: counter_inv_def)
  from assigned_increasing [OF assms(2) pos assms(3)] assms(4)
  have i: "nextId s \<le> i" "i < 2 ^ 53" by blast+
  then have "nextId s < 2 ^ 53" by simp
  with assms(1) have "ids_below s" by (simp add: counter_inv_def)
  with assms(5) have "task_id t < nextId s"
    by (simp add: ids_below_def list_all_iff)
  with i(1) show ?thesis by simp
qed

lemma distinct_assigned:
  "Hydrate \<notin> set acts \<Longrightarrow> 1 \<le> nextId s \<Longrightarrow>
   nextId s + int (count_list acts Add) \<le> 2 ^ 53 \<Longrightarrow> distinct (assigned acts s)"
  using assigned_increasing [of acts s] strict_sorted_iff by blast

text \<open>
  C5, as the spec states it: under any sequence of Hydrate, AddTask and delete, an id once
  assigned is never assigned again. After two tasks are added (ids 1 and 2), the Delete
  button of the first calls \<^verbatim>\<open>handleDelete(1)\<close>, which removes the record of id 2; the
  next hydration reads the list of the one record of id 1 and sets the counter to 2, and the
  next Add assigns id 2 a second time.
\<close>

theorem hydrate_reuses_id:
  "run [Hydrate, Add, Add, Delete 1] (initial None) =
     Inr \<lparr>tasks = [\<lparr>task_id = 1, title = [], description = []\<rparr>], newTask = [], nextId = 3,
          storage = Some (JSON_stringify [\<lparr>task_id = 1, title = [], description = []\<rparr>])\<rparr> \<and>
   assigned [Hydrate, Add, Add, Delete 1, Hydrate, Add] (initial None) = [1, 2, 2] \<and>
   \<not> distinct (assigned [Hydrate, Add, Add, Delete 1, Hydrate, Add] (initial None))"
proof -
  have n: "Number_add 0 1 = 1" "Number_add 1 1 = 2" "Number_add 2 1 = 3"
    by (simp_all add: Number_add_def Number_round_def)
  show ?thesis
    by (simp add: initial_def hydrate_def JSON_parse_def JSON_stringify_def addTask_def
        handleDelete_def Let_def n)
qed

text \<open>
  C5, amended. From any reachable state, a sequence of events without a hydration, whose
  Adds do not take the counter beyond \<open>2 ^ 53\<close>, assigns pairwise different ids, each
  greater than every id in the list of that state, whatever is deleted in between. A later
  hydration, which sets the counter again from the ids that are left, can hand out the id
  of a deleted record once more, and so can an Add at the counter \<open>2 ^ 53\<close>, which
  \<^verbatim>\<open>nextId + 1\<close> does not increase.
\<close>

theorem session_ids_never_reused:
  "run pre (initial st) = Inr s \<Longrightarrow> Hydrate \<notin> set acts \<Longrightarrow>
   nextId s + int (count_list acts Add) \<le> 2 ^ 53 \<Longrightarrow>
   distinct (assigned acts s) \<and>
   (\<forall>i\<in>set (assigned acts s). \<forall>t\<in>set (tasks s). task_id t < i)"
proof -
  assume r: "run pre (initial st) = Inr s" and f: "Hydrate \<notin> set acts"
    and b: "nextId s + int (count_list acts Add) \<le> 2 ^ 53"
  from counter_inv_reachable [OF r] have inv: "counter_inv s" .
  then have "1 \<le> nextId s" by (simp add: counter_inv_def)
  from distinct_assigned [OF f this b] have "distinct (assigned acts s)" .
  moreover have "\<forall>i\<in>set (assigned acts s). \<forall>t\<in>set (tasks s). task_id t < i"
    using assigned_above_list [OF inv f b] by blast
  ultimately show ?thesis by simp
qed

theorem session_ids_never_reused_witness:
  "run [Hydrate] (initial (Some (JSON_stringify [task_3, task_7]))) =
     Inr ((initial (Some (JSON_stringify [task_3, task_7])))\<lparr>tasks := [task_3, task_7], nextId := 8\<rparr>) \<and>
   Hydrate \<notin> set [Add, Delete 0, Add, Delete 7, Add] \<and>
   nextId ((initial (Some (JSON_stringify [task_3, task_7])))\<lparr>tasks := [task_3, task_7], nextId := 8\<rparr>)
     + int (count_list [Add, Delete 0, Add, Delete 7, Add] Add) \<le> 2 ^ 53 \<and>
   assigned [Add, Delete 0, Add, Delete 7, Add]
     ((initial (Some (JSON_stringify [task_3, task_7])))\<lparr>tasks := [task_3, task_7], nextId := 8\<rparr>)
     = [8, 9, 10] \<and>
   distinct (assigned [Add, Delete 0, Add, Delete 7, Add]
     ((initial (Some (JSON_stringify [task_3, task_7])))\<lparr>tasks := [task_3, task_7], nextId := 8\<rparr>))"
proof -
  let ?st = "Some (JSON_stringify [task_3, task_7])"
  let ?s = "(initial ?st)\<lparr>tasks := [task_3, task_7], nextId := 8\<rparr>"
  have n: "Number_add 7 1 = 8" "Number_add 8 1 = 9" "Number_add 9 1 = 10"
      "Number_add 10 1 = 11"
    by (simp_all add: Number_add_def Number_round_def)
  have r: "run [Hydrate] (initial ?st) = Inr ?s"
    by (simp add: initial_def hydrate_def JSON_parse_def JSON_stringify_def task_3_def
        task_7_def n)
  have f: "Hydrate \<notin> set [Add, Delete 0, Add, Delete 7, Add]" by simp
  have b: "nextId ?s + int (count_list [Add, Delete 0, Add, Delete 7, Add] Add) \<le> 2 ^ 53"
    by simp
  have a: "assigned [Add, Delete 0, Add, Delete 7, Add] ?s = [8, 9, 10]"
    by (simp add: initial_def addTask_def handleDelete_def Let_def n)
  from session_ids_never_reused [OF r f b] r f b a show ?thesis by simp
qed

text \<open>
  C10, as the spec states it: since Delete leaves the counter alone, no later Add of the
  session assigns the id of a deleted record. In the state hydrated from the records of the
  ids \<open>2 ^ 53\<close> and 0 the counter is 9007199254740992. The Delete button of the second
  record calls \<^verbatim>\<open>handleDelete(0)\<close>, which removes the first; the next Add assigns
  9007199254740992, the id of the record just deleted.
\<close>

theorem delete_then_reassigned:
  "run [Hydrate] (initial (Some (JSON_stringify [task_big, task_zero]))) = Inr at_big \<and>
   tasks (onClick_Delete task_zero at_big) = [task_zero] \<and>
   nextId (onClick_Delete task_zero at_big) = nextId at_big \<and>
   assigned [Add] (onClick_Delete task_zero at_big) = [task_id task_big]"
  by (simp add: hydrate_def JSON_parse_def JSON_stringify_def initial_def at_big_def
      task_big_def task_zero_def onClick_Delete_def handleDelete_def Let_def Number_add_2_53)

text \<open>
  C10, amended. \<^verbatim>\<open>handleDelete\<close> leaves the counter as it is. So from any reachable state,
  as long as no hydration happens and the Adds do not take the counter beyond \<open>2 ^ 53\<close>, no
  later Add assigns the id of a record that was in the list when Delete was clicked.
\<close>

theorem handleDelete_keeps_counter:
  "nextId (handleDelete index s) = nextId s \<and>
   (run pre (initial st) = Inr s \<and> Hydrate \<notin> set acts \<and>
    nextId s + int (count_list acts Add) \<le> 2 ^ 53 \<longrightarrow>
      (\<forall>t\<in>set (tasks s). task_id t \<notin> set (assigned acts (handleDelete index s))))"
proof -
  have "task_id t \<notin> set (assigned acts (handleDelete index s))"
    if r: "run pre (initial st) = Inr s" and f: "Hydrate \<notin> set acts"
      and b: "nextId s + int (count_list acts Add) \<le> 2 ^ 53" and t: "t \<in> set (tasks s)"
    for t
  proof
    assume m: "task_id t \<in> set (assigned acts (handleDelete index s))"
    from counter_inv_reachable [OF r] have inv: "counter_inv s" .
    then have pos: "1 \<le> nextId (handleDelete index s)"
      by (simp add: counter_inv_def nextId_handleDelete)
    from b have b': "nextId (handleDelete index s) + int (count_list acts Add) \<le> 2 ^ 53"
      by (simp only: nextId_handleDelete)
    from assigned_increasing [OF f pos b'] m
    have i: "nextId s \<le> task_id t" "task_id t < 2 ^ 53"
      by (auto simp: nextId_handleDelete)
    then have "nextId s < 2 ^ 53" by simp
    with inv have "ids_below s" by (simp add: counter_inv_def)
    with t have "task_id t < nextId s"
      by (simp add: ids_below_def list_all_iff)
    with i(1) show False by simp
  qed
  then show ?thesis by (simp add: nextId_handleDelete)
qed

theorem handleDelete_keeps_counter_witness:
  "run [Hydrate] (initial (Some (JSON_stringify [task_A, task_B]))) = Inr two_tasks \<and>
   Hydrate \<notin> set [Add, Delete 1, Add] \<and>
   nextId two_tasks + int (count_list [Add, Delete 1, Add] Add) \<le> 2 ^ 53 \<and>
   nextId (handleDelete 1 two_tasks) = 3 \<and>
   tasks (handleDelete 1 two_tasks) = [task_A] \<and>
   assigned [Add, Delete 1, Add] (handleDelete 1 two_tasks) = [3, 4] \<and>
   task_id task_A \<notin> set (assigned [Add, Delete 1, Add] (handleDelete 1 two_tasks)) \<and>
   task_id task_B \<notin> set (assigned [Add, Delete 1, Add] (handleDelete 1 two_tasks))"
proof -
  have n: "Number_add 2 1 = 3" "Number_add 3 1 = 4" "Number_add 4 1 = 5"
    by (simp_all add: Number_add_def Number_round_def)
  have r: "run [Hydrate] (initial (Some (JSON_stringify [task_A, task_B]))) = Inr two_tasks"
    by (simp add: initial_def hydrate_def JSON_parse_def JSON_stringify_def two_tasks_def
        task_A_def task_B_def n)
  have f: "Hydrate \<notin> set [Add, Delete 1, Add]" by simp
  have b: "nextId two_tasks + int (count_list [Add, Delete 1, Add] Add) \<le> 2 ^ 53"
    by (simp add: two_tasks_def)
  have a: "assigned [Add, Delete 1, Add] (handleDelete 1 two_tasks) = [3, 4]"
    by (simp add: two_tasks_def addTask_def handleDelete_def Let_def n)
  have d: "tasks (handleDelete 1 two_tasks) = [task_A]"
    by (simp add: two_tasks_def handleDelete_def Let_def)
  from handleDelete_keeps_counter [of 1 two_tasks "[Hydrate]"
      "Some (JSON_stringify [task_A, task_B])" "[Add, Delete 1, Add]"] r f b a d
  show ?thesis by (simp add: two_tasks_def task_A_def task_B_def)
qed

lemma nextId_AddTask: "nextId (AddTask t s) = Number_add (nextId s) 1"
  by (simp add: AddTask_def addTask_def setNewTesk_def Let_def)

lemma tasks_AddTask:
  "tasks (AddTask t s) = tasks s @ [\<lparr>task_id = nextId s, title = t, description = []\<rparr>]"
  by (simp add: AddTask_def addTask_def setNewTesk_def Let_def)

lemma fold_AddTask:
  "1 \<le> nextId s \<Longrightarrow> nextId s + int (length ts) \<le> 2 ^ 53 \<Longrightarrow>
   \<exists>new. tasks (fold AddTask ts s) = tasks s @ new \<and> map title new = ts \<and>
     sorted_wrt (<) (map task_id new) \<and> (\<forall>n\<in>set new. nextId s \<le> task_id n)"
proof (induction ts arbitrary: s)
  case Nil
  show ?case by simp
next
  case (Cons t ts)
  let ?r = "\<lparr>task_id = nextId s, title = t, description = []\<rparr>"
  from Cons.prems have lt: "nextId s < 2 ^ 53" by simp
  with Cons.prems(1) have "Number_add (nextId s) 1 = nextId s + 1"
    by (intro Number_add_1_exact) simp_all
  then have c: "nextId (AddTask t s) = nextId s + 1" by (simp only: nextId_AddTask)
  have ts: "tasks (AddTask t s) = tasks s @ [?r]" by (rule tasks_AddTask)
  from Cons.prems c have "1 \<le> nextId (AddTask t s)"
    and "nextId (AddTask t s) + int (length ts) \<le> 2 ^ 53" by simp_all
  from Cons.IH [OF this] obtain new where
    new: "tasks (fold AddTask ts (AddTask t s)) = tasks (AddTask t s) @ new"
      "map title new = ts" "sorted_wrt (<) (map task_id new)"
      "\<forall>n\<in>set new. nextId (AddTask t s) \<le> task_id n"
    by blast
  show ?case
  proof (intro exI conjI)
    show "tasks (fold AddTask (t # ts) s) = tasks s @ (?r # new)"
      using new(1) ts by simp
    show "map title (?r # new) = t # ts"
      using new(2) by simp
    show "sorted_wrt (<) (map task_id (?r # new))"
      using new(3,4) c by auto
    show "\<forall>n\<in>set (?r # new). nextId s \<le> task_id n"
      using new(4) c by auto
  qed
qed

lemma count_list_distinct: "distinct xs \<Longrightarrow> x \<in> set xs \<Longrightarrow> count_list xs x = 1"
  by (induction xs) auto

lemma created_props:
  assumes "1 \<le> nextId s" and "nextId s + int (length ts) \<le> 2 ^ 53"
  shows "tasks (fold AddTask ts s) = tasks s @ created ts s \<and> map title (created ts s) = ts \<and>
   sorted_wrt (<) (map task_id (created ts s)) \<and>
   (\<forall>n\<in>set (created ts s). nextId s \<le> task_id n)"
proof -
  from fold_AddTask [OF assms] obtain new where
    new: "tasks (fold AddTask ts s) = tasks s @ new" "map title new = ts"
      "sorted_wrt (<) (map task_id new)" "\<forall>n\<in>set new. nextId s \<le> task_id n"
    by blast
  from new(1) have "created ts s = new" by (simp add: created_def)
  with new show ?thesis by simp
qed

text \<open>
  C6, as the spec states it: for every starting state and every sequence of \<^verbatim>\<open>AddTask\<close>
  calls the ids of the new records are strictly increasing and unique. In the state
  hydrated from the list of the one record of id \<open>2 ^ 53 - 1\<close> the counter is
  9007199254740992; \<^verbatim>\<open>nextId + 1\<close> leaves it there, and two calls create two records of
  the id 9007199254740992.
\<close>

theorem AddTask_ids_repeat:
  "run [Hydrate] (initial (Some (JSON_stringify [task_safe]))) = Inr at_limit \<and>
   map task_id (created [''a'', ''b''] at_limit) = [9007199254740992, 9007199254740992] \<and>
   \<not> sorted_wrt (<) (map task_id (created [''a'', ''b''] at_limit)) \<and>
   \<not> distinct (map task_id (created [''a'', ''b''] at_limit))"
  by (simp add: hydrate_def JSON_parse_def JSON_stringify_def initial_def at_limit_def
      task_safe_def created_def AddTask_def addTask_def setNewTesk_def Let_def
      Number_add_2_53 Number_add_below_2_53)

text \<open>
  C6, amended. From any reachable state, a sequence of \<^verbatim>\<open>AddTask\<close> calls that does not
  take the counter beyond \<open>2 ^ 53\<close> appends one record per call, in order; the ids of these
  records are strictly increasing, so pairwise different, each is greater than the id of
  every record that was already in the list, and each occurs once in the whole list.
\<close>

theorem AddTask_ids_increasing:
  "run pre (initial st) = Inr s \<Longrightarrow> nextId s + int (length ts) \<le> 2 ^ 53 \<Longrightarrow>
   tasks (fold AddTask ts s) = tasks s @ created ts s \<and>
   map title (created ts s) = ts \<and>
   sorted_wrt (<) (map task_id (created ts s)) \<and>
   distinct (map task_id (created ts s)) \<and>
   (\<forall>n\<in>set (created ts s). \<forall>t\<in>set (tasks s). task_id t < task_id n) \<and>
   (\<forall>n\<in>set (created ts s).
      count_list (map task_id (tasks (fold AddTask ts s))) (task_id n) = 1) \<and>
   (distinct (map task_id (tasks s)) \<longrightarrow> distinct (map task_id (tasks (fold AddTask ts s))))"
proof -
  assume r: "run pre (initial st) = Inr s" and b: "nextId s + int (length ts) \<le> 2 ^ 53"
  from counter_inv_reachable [OF r] have inv: "counter_inv s" .
  then have pos: "1 \<le> nextId s" by (simp add: counter_inv_def)
  note p = created_props [OF pos b]
  from p have app: "tasks (fold AddTask ts s) = tasks s @ created ts s" by simp
  from p have ttl: "map title (created ts s) = ts" by simp
  from p have srt: "sorted_wrt (<) (map task_id (created ts s))" by simp
  then have dst: "distinct (map task_id (created ts s))"
    using strict_sorted_iff by blast
  have above: "task_id t < task_id n" if "n \<in> set (created ts s)" "t \<in> set (tasks s)" for n t
  proof -
    from that(1) have "created ts s \<noteq> []" by auto
    with ttl have "ts \<noteq> []" by auto
    then have "1 \<le> int (length ts)" by (cases ts) simp_all
    with b have "nextId s < 2 ^ 53" by simp
    with inv have "ids_below s" by (simp add: counter_inv_def)
    with that(2) have "task_id t < nextId s"
      by (simp add: ids_below_def list_all_iff)
    moreover from p that(1) have "nextId s \<le> task_id n" by blast
    ultimately show ?thesis by simp
  qed
  have once: "count_list (map task_id (tasks (fold AddTask ts s))) (task_id n) = 1"
    if n: "n \<in> set (created ts s)" for n
  proof -
    have "task_id n \<notin> set (map task_id (tasks s))"
    proof
      assume "task_id n \<in> set (map task_id (tasks s))"
      then obtain t where t: "t \<in> set (tasks s)" "task_id n = task_id t" by auto
      from above [OF n t(1)] t(2) show False by simp
    qed
    then have "count_list (map task_id (tasks s)) (task_id n) = 0"
      by (simp add: count_list_0_iff)
    moreover from dst n have "count_list (map task_id (created ts s)) (task_id n) = 1"
      by (simp add: count_list_distinct)
    ultimately show ?thesis by (simp add: app)
  qed
  have all: "distinct (map task_id (tasks (fold AddTask ts s)))"
    if "distinct (map task_id (tasks s))"
    using that dst above by (fastforce simp: app)
  from p srt dst above once all show ?thesis by blast
qed

theorem AddTask_ids_increasing_witness:
  "run [Hydrate] (initial (Some (JSON_stringify [task_3, task_7]))) =
     Inr ((initial (Some (JSON_stringify [task_3, task_7])))\<lparr>tasks := [task_3, task_7], nextId := 8\<rparr>) \<and>
   nextId ((initial (Some (JSON_stringify [task_3, task_7])))\<lparr>tasks := [task_3, task_7], nextId := 8\<rparr>)
     + int (length [''a'', ''a'']) \<le> 2 ^ 53 \<and>
   created [''a'', ''a'']
     ((initial (Some (JSON_stringify [task_3, task_7])))\<lparr>tasks := [task_3, task_7], nextId := 8\<rparr>) =
     [\<lparr>task_id = 8, title = ''a'', description = []\<rparr>,
      \<lparr>task_id = 9, title = ''a'', description = []\<rparr>] \<and>
   sorted_wrt (<) (map task_id (created [''a'', ''a'']
     ((initial (Some (JSON_stringify [task_3, task_7])))\<lparr>tasks := [task_3, task_7], nextId := 8\<rparr>)))"
proof -
  let ?st = "Some (JSON_stringify [task_3, task_7])"
  let ?s = "(initial ?st)\<lparr>tasks := [task_3, task_7], nextId := 8\<rparr>"
  have n: "Number_add 7 1 = 8" "Number_add 8 1 = 9" "Number_add 9 1 = 10"
    by (simp_all add: Number_add_def Number_round_def)
  have r: "run [Hydrate] (initial ?st) = Inr ?s"
    by (simp add: initial_def hydrate_def JSON_parse_def JSON_stringify_def task_3_def
        task_7_def n)
  have b: "nextId ?s + int (length [''a'', ''a'']) \<le> 2 ^ 53" by simp
  have c: "created [''a'', ''a''] ?s =
     [\<lparr>task_id = 8, title = ''a'', description = []\<rparr>,
      \<lparr>task_id = 9, title = ''a'', description = []\<rparr>]"
    by (simp add: created_def initial_def AddTask_def addTask_def setNewTesk_def Let_def n)
  from AddTask_ids_increasing [OF r b] r b c show ?thesis by simp
qed

end
